theory Spec2Isabelle
  imports Complex_Main "HOL-Library.Monad_Syntax" "HOL-Library.Log_Nat"
begin

section \<open>Temporal fusion of the knock classifier sketch\<close>

text \<open>
  The development embeds the fusion part of
  \<^verbatim>\<open>nano_ble33_sense_microphone_new_works.ino\<close>: the circular buffer of the last
  classification vectors, the weighted and boosted sum over it, and the knock decision.

  The sketch computes on C \<^verbatim>\<open>float\<close> values. The development has them twice: as exact
  reals, for everything that does not turn on rounding (the ring, the gating, the
  decision, the scenario, the bounds), and in single precision, with every operation
  rounded to the nearest binary32 value, for the one property that does (the effect of a
  greater boost). The cursor \<^verbatim>\<open>fusion_index\<close> is a C \<^verbatim>\<open>int\<close> that only ever holds
  \<open>0 .. FUSION_WINDOW\<close>, so it is a natural number here.
\<close>

subsection \<open>Configuration constants (lines 17-30)\<close>

definition FUSION_WINDOW :: nat where
  "FUSION_WINDOW = 5"

text \<open>
  Modelled from the spec: \<^verbatim>\<open>EI_CLASSIFIER_LABEL_COUNT\<close> is a macro of the generated
  header \<^verbatim>\<open>EDL-2_v1_inferencing.h\<close>, which is not among the sources. The spec's class
  count is three, and the sketch initialises \<^verbatim>\<open>class_boost\<close> with three factors for
  Engine, Knock and Neither.
\<close>

definition EI_CLASSIFIER_LABEL_COUNT :: nat where
  "EI_CLASSIFIER_LABEL_COUNT = 3"

definition fusion_weights :: "real list" where
  "fusion_weights = [0.05, 0.10, 0.20, 0.30, 0.35]"

definition class_boost :: "real list" where
  "class_boost = [1.0, 2.0, 1.0]"

definition KNOCK_THRESHOLD :: real where
  "KNOCK_THRESHOLD = 0.25"

subsection \<open>State of the sketch\<close>

text \<open>
  The three globals of the fusion (lines 21-23), and whether the sample buffer
  \<^verbatim>\<open>inference.buffer\<close> is currently allocated: \<^verbatim>\<open>microphone_inference_start\<close> allocates
  it, \<^verbatim>\<open>microphone_inference_end\<close> frees it.
\<close>

record sketch_state =
  classification_buffer :: "real list list"
  fusion_index :: nat
  fusion_buffer_full :: bool
  inference_buffer_allocated :: bool

text \<open>
  The state after the sketch's \<^verbatim>\<open>setup()\<close> (named \<open>sketch_setup\<close> here): the
  statics are zero-initialised; the argument says whether the \<^verbatim>\<open>malloc\<close> of
  \<^verbatim>\<open>microphone_inference_start\<close> succeeded.
\<close>

definition sketch_setup :: "bool \<Rightarrow> sketch_state" where
  "sketch_setup malloc_ok =
     \<lparr> classification_buffer =
         replicate FUSION_WINDOW (replicate EI_CLASSIFIER_LABEL_COUNT 0),
       fusion_index = 0,
       fusion_buffer_full = False,
       inference_buffer_allocated = malloc_ok \<rparr>"

definition microphone_inference_end :: "sketch_state \<Rightarrow> sketch_state" where
  "microphone_inference_end s = s\<lparr>inference_buffer_allocated := False\<rparr>"

text \<open>
  What the upstream part of one cycle delivers (lines 145-162):
  \<^verbatim>\<open>microphone_inference_record\<close> ran into its timeout, \<^verbatim>\<open>run_classifier\<close> returned an
  error, or the classifier produced \<^verbatim>\<open>result.classification\<close>.
\<close>

datatype cycle_input =
    RecordTimeout
  | ClassifierError
  | Classified "real list"

subsection \<open>The push into the circular buffer (lines 164-172)\<close>

text \<open>
  The inner loop copies \<^verbatim>\<open>result.classification[c].value\<close> into the row at the cursor,
  class by class; then the cursor advances and wraps. The arrays have fixed sizes in C:
  the model is meant for states of the shape \<open>wf_state\<close> below and for results of
  \<^verbatim>\<open>EI_CLASSIFIER_LABEL_COUNT\<close> scores, and says nothing about accesses outside them.
\<close>

definition store_row :: "real list \<Rightarrow> real list \<Rightarrow> real list" where
  "store_row row result =
     fold (\<lambda>c r. r[c := result ! c]) [0..<EI_CLASSIFIER_LABEL_COUNT] row"

definition push :: "sketch_state \<Rightarrow> real list \<Rightarrow> sketch_state" where
  "push s result =
     (let buf = (classification_buffer s)
                  [fusion_index s :=
                     store_row (classification_buffer s ! fusion_index s) result];
          idx = fusion_index s + 1
      in if idx \<ge> FUSION_WINDOW
         then s\<lparr>classification_buffer := buf, fusion_index := 0,
                fusion_buffer_full := True\<rparr>
         else s\<lparr>classification_buffer := buf, fusion_index := idx\<rparr>)"

subsection \<open>Weighted sum, boost and decision (lines 174-196)\<close>

text \<open>
  In exact arithmetic; \<open>weighted_sum_f32\<close>, \<open>apply_boost_f32\<close> and \<open>fuse_f32\<close> below are
  the same loops in single precision.
\<close>

definition weighted_sum :: "real list \<Rightarrow> real list list \<Rightarrow> real list" where
  "weighted_sum ws buf =
     fold (\<lambda>i S. fold (\<lambda>c S. S[c := S ! c + ws ! i * buf ! i ! c])
                       [0..<EI_CLASSIFIER_LABEL_COUNT] S)
          [0..<FUSION_WINDOW]
          (replicate EI_CLASSIFIER_LABEL_COUNT 0)"

definition apply_boost :: "real list \<Rightarrow> real list \<Rightarrow> real list" where
  "apply_boost bs S =
     fold (\<lambda>c S. S[c := S ! c * bs ! c]) [0..<EI_CLASSIFIER_LABEL_COUNT] S"

definition fuse :: "real list \<Rightarrow> real list \<Rightarrow> real list list \<Rightarrow> real list" where
  "fuse ws bs buf = apply_boost bs (weighted_sum ws buf)"

text \<open>
  One run of \<^verbatim>\<open>loop\<close>. The second component is what the cycle reports about the
  fusion: nothing, or the decision (\<open>True\<close> for \<^verbatim>\<open>KNOCK DETECTED!\<close>) and the fused
  scores that are printed.
\<close>

definition loop ::
  "sketch_state \<Rightarrow> cycle_input \<Rightarrow> sketch_state \<times> (bool \<times> real list) option" where
  "loop s inp =
     (case inp of
        RecordTimeout \<Rightarrow> (s, None)
      | ClassifierError \<Rightarrow> (microphone_inference_end s, None)
      | Classified result \<Rightarrow>
          (let s1 = push s result
           in if fusion_buffer_full s1
              then (let S = fuse fusion_weights class_boost (classification_buffer s1)
                    in (s1, Some (S ! 1 > KNOCK_THRESHOLD, S)))
              else (s1, None)))"

text \<open>
  Successive cycles: the final state and the report of every cycle, in order.
\<close>

fun run ::
  "sketch_state \<Rightarrow> cycle_input list \<Rightarrow> sketch_state \<times> (bool \<times> real list) option list"
  where
  "run s [] = (s, [])"
| "run s (inp # inps) =
     (case loop s inp of
        (s1, out) \<Rightarrow> (case run s1 inps of (s2, outs) \<Rightarrow> (s2, out # outs)))"

text \<open>
  Every cycle begins with \<^verbatim>\<open>microphone_inference_record\<close>, which stores its samples
  through \<^verbatim>\<open>inference.buffer\<close> (line 77, the first one at once), and a cycle that reaches
  the classifier reads them back through the same pointer (line 102). Only \<^verbatim>\<open>setup()\<close>
  allocates that buffer. \<open>loop\<close> above gives the effect of a cycle whose stores are
  defined; \<open>loop_checked\<close> is the cycle as the sketch runs it: \<open>None\<close> stands for a
  cycle that stores through a pointer that is not allocated, which is undefined
  behaviour in C.
\<close>

definition loop_checked ::
  "sketch_state \<Rightarrow> cycle_input \<Rightarrow> (sketch_state \<times> (bool \<times> real list) option) option"
  where
  "loop_checked s inp = (if inference_buffer_allocated s then Some (loop s inp) else None)"

subsection \<open>The fusion in single precision (lines 176-187)\<close>

text \<open>
  The sketch's \<^verbatim>\<open>float\<close> is IEEE 754 binary32. A finite binary32 value is a real
  number; \<open>round_f32 x\<close> is the binary32 value nearest to \<open>x\<close>, ties going to the even
  significand, with gradual underflow: the values are spaced \<open>2 ^ (e - 23)\<close> apart in
  the binade from \<open>2 ^ e\<close> to \<open>2 ^ (e + 1)\<close> for \<open>e \<ge> -126\<close>, and \<open>2 ^ -149\<close> apart
  below \<open>2 ^ -126\<close>. The result is \<open>None\<close> when the rounded magnitude reaches
  \<open>2 ^ 128\<close>, where binary32 overflows to an infinity: infinities and NaN are not
  values of this model. Every operation rounds once; in particular the statement
  \<^verbatim>\<open>S[c] += fusion_weights[i] * classification_buffer[i][c]\<close> is a rounded product
  followed by a rounded sum, not a fused multiply-add.
\<close>

text \<open>The nearest integer, ties to even.\<close>

definition rne :: "real \<Rightarrow> int" where
  "rne x =
     (let n = \<lfloor>x\<rfloor>; d = x - of_int n
      in if d < 1 / 2 then n
         else if 1 / 2 < d then n + 1
         else if even n then n else n + 1)"

text \<open>
  The spacing of the binary32 values around a magnitude \<open>m \<ge> 0\<close>: \<open>\<lfloor>m * 2 ^ 149\<rfloor>\<close> is
  \<open>m\<close> in units of the smallest subnormal, and each bit it has beyond 24 doubles the
  spacing (up to the binade of the overflow).
\<close>

definition f32_ulp :: "real \<Rightarrow> real" where
  "f32_ulp m = 2 ^ min 253 (floorlog 2 (nat \<lfloor>m * 2 ^ 149\<rfloor>) - 24) / 2 ^ 149"

definition f32_round_mag :: "real \<Rightarrow> real" where
  "f32_round_mag m = of_int (rne (m / f32_ulp m)) * f32_ulp m"

definition round_f32 :: "real \<Rightarrow> real option" where
  "round_f32 x =
     (let r = f32_round_mag \<bar>x\<bar>
      in if r < 2 ^ 128 then Some (if x < 0 then - r else r) else None)"

definition fmul :: "real \<Rightarrow> real \<Rightarrow> real option" where
  "fmul a b = round_f32 (a * b)"

definition fadd :: "real \<Rightarrow> real \<Rightarrow> real option" where
  "fadd a b = round_f32 (a + b)"

text \<open>
  The binary32 values of the literals \<^verbatim>\<open>0.05f\<close>, \<^verbatim>\<open>0.10f\<close>, \<^verbatim>\<open>0.20f\<close>, \<^verbatim>\<open>0.30f\<close> and
  \<^verbatim>\<open>0.35f\<close> of line 26 (lemma \<open>fusion_weights_f32_rounded\<close> below).
\<close>

definition fusion_weights_f32 :: "real list" where
  "fusion_weights_f32 =
     [13421773 / 268435456, 13421773 / 134217728, 13421773 / 67108864,
      5033165 / 16777216, 11744051 / 33554432]"

text \<open>
  Lines 176-187 with every product and sum rounded: the accumulation into \<^verbatim>\<open>S\<close>, then
  \<^verbatim>\<open>S[c] *= class_boost[c]\<close>.
\<close>

definition weighted_sum_f32 :: "real list \<Rightarrow> real list list \<Rightarrow> real list option" where
  "weighted_sum_f32 ws buf =
     fold (\<lambda>i. fold (\<lambda>c So. do {
                         S \<leftarrow> So;
                         p \<leftarrow> fmul (ws ! i) (buf ! i ! c);
                         t \<leftarrow> fadd (S ! c) p;
                         Some (S[c := t]) })
                      [0..<EI_CLASSIFIER_LABEL_COUNT])
          [0..<FUSION_WINDOW]
          (Some (replicate EI_CLASSIFIER_LABEL_COUNT 0))"

definition apply_boost_f32 :: "real list \<Rightarrow> real list \<Rightarrow> real list option" where
  "apply_boost_f32 bs S =
     fold (\<lambda>c So. do { S \<leftarrow> So; t \<leftarrow> fmul (S ! c) (bs ! c); Some (S[c := t]) })
          [0..<EI_CLASSIFIER_LABEL_COUNT] (Some S)"

definition fuse_f32 :: "real list \<Rightarrow> real list \<Rightarrow> real list list \<Rightarrow> real list option" where
  "fuse_f32 ws bs buf = do { S \<leftarrow> weighted_sum_f32 ws buf; apply_boost_f32 bs S }"

subsection \<open>Shape of the state\<close>

text \<open>
  The arrays of the sketch have fixed sizes, and the cursor stays below
  \<^verbatim>\<open>FUSION_WINDOW\<close>: every state that \<^verbatim>\<open>loop\<close> reaches from \<open>sketch_setup\<close> has this
  shape (lemmas \<open>wf_setup\<close> and \<open>wf_loop\<close> below).
\<close>

definition wf_state :: "sketch_state \<Rightarrow> bool" where
  "wf_state s \<longleftrightarrow>
     length (classification_buffer s) = FUSION_WINDOW \<and>
     (\<forall>row \<in> set (classification_buffer s). length row = EI_CLASSIFIER_LABEL_COUNT) \<and>
     fusion_index s < FUSION_WINDOW"

text \<open>The part of the state that belongs to the history buffer.\<close>

definition history_of :: "sketch_state \<Rightarrow> real list list \<times> nat \<times> bool" where
  "history_of s = (classification_buffer s, fusion_index s, fusion_buffer_full s)"

text \<open>Every score of every stored vector lies between 0 and 1.\<close>

definition scores_in_unit :: "real list list \<Rightarrow> bool" where
  "scores_in_unit buf \<longleftrightarrow>
     (\<forall>i<FUSION_WINDOW. \<forall>c<EI_CLASSIFIER_LABEL_COUNT. 0 \<le> buf ! i ! c \<and> buf ! i ! c \<le> 1)"

subsection \<open>The fusion as the specification words it\<close>

text \<open>
  The specification's \<open>snapshot\<close> is the last \<^verbatim>\<open>FUSION_WINDOW\<close> pushed vectors, oldest
  first; its \<open>fuse\<close> is \<open>S[c] = boosts[c] * \<Sum>i. weights[i] * history[i][c]\<close> over that
  snapshot. Both are written from the specification's text, for comparison with the
  sketch.
\<close>

definition snapshot_spec :: "real list list \<Rightarrow> real list list" where
  "snapshot_spec pushed = drop (length pushed - FUSION_WINDOW) pushed"

definition fuse_spec :: "real list \<Rightarrow> real list \<Rightarrow> real list list \<Rightarrow> real list" where
  "fuse_spec ws bs history =
     map (\<lambda>c. bs ! c * (\<Sum>i\<leftarrow>[0..<FUSION_WINDOW]. ws ! i * history ! i ! c))
         [0..<EI_CLASSIFIER_LABEL_COUNT]"

section \<open>Auxiliary facts\<close>

subsection \<open>The loops over the class index and over the window\<close>

lemma fold_update_length:
  "length (fold (\<lambda>c S. S[c := h c (S ! c)]) [0..<n] S) = length S"
  by (induction n) simp_all

lemma fold_update_nth:
  "c < length S \<Longrightarrow>
   fold (\<lambda>c S. S[c := h c (S ! c)]) [0..<n] S ! c = (if c < n then h c (S ! c) else S ! c)"
proof (induction n)
  case 0
  then show ?case by simp
next
  case (Suc n)
  then show ?case
    by (cases "c = n") (simp_all add: fold_update_length nth_list_update)
qed

lemma store_row_eq:
  assumes "length row = EI_CLASSIFIER_LABEL_COUNT" "length result = EI_CLASSIFIER_LABEL_COUNT"
  shows "store_row row result = result"
proof (rule nth_equalityI)
  show "length (store_row row result) = length result"
    using assms fold_update_length [of "\<lambda>c x. result ! c"] by (simp add: store_row_def)
next
  fix c assume "c < length (store_row row result)"
  then have "c < length row"
    using fold_update_length [of "\<lambda>c x. result ! c"] by (simp add: store_row_def)
  then show "store_row row result ! c = result ! c"
    using assms fold_update_nth [of c row "\<lambda>c x. result ! c" EI_CLASSIFIER_LABEL_COUNT]
    by (simp add: store_row_def)
qed

lemma weighted_rows_length:
  "length (fold (\<lambda>i S. fold (\<lambda>c S. S[c := S ! c + ws ! i * buf ! i ! c]) [0..<m] S) [0..<n] S0)
     = length S0"
  by (induction n) (simp_all add: fold_update_length [of "\<lambda>c x. x + f c" for f])

lemma weighted_rows_nth:
  "c < length S0 \<Longrightarrow> c < m \<Longrightarrow>
   fold (\<lambda>i S. fold (\<lambda>c S. S[c := S ! c + ws ! i * buf ! i ! c]) [0..<m] S) [0..<n] S0 ! c
     = S0 ! c + (\<Sum>i<n. ws ! i * buf ! i ! c)"
proof (induction n)
  case 0
  then show ?case by simp
next
  case (Suc n)
  let ?S = "fold (\<lambda>i S. fold (\<lambda>c S. S[c := S ! c + ws ! i * buf ! i ! c]) [0..<m] S) [0..<n] S0"
  have "c < length ?S" using Suc.prems by (simp add: weighted_rows_length)
  then show ?case
    using Suc fold_update_nth [of c ?S "\<lambda>c x. x + ws ! n * buf ! n ! c" m]
    by (simp add: add.assoc)
qed

lemma length_weighted_sum: "length (weighted_sum ws buf) = EI_CLASSIFIER_LABEL_COUNT"
  by (simp add: weighted_sum_def weighted_rows_length)

lemma weighted_sum_nth:
  "c < EI_CLASSIFIER_LABEL_COUNT \<Longrightarrow>
   weighted_sum ws buf ! c = (\<Sum>i<FUSION_WINDOW. ws ! i * buf ! i ! c)"
  by (simp add: weighted_sum_def weighted_rows_nth)

lemma length_fuse: "length (fuse ws bs buf) = EI_CLASSIFIER_LABEL_COUNT"
  using fold_update_length [of "\<lambda>c x. x * bs ! c"]
  by (simp add: fuse_def apply_boost_def length_weighted_sum)

lemma fuse_nth:
  "c < EI_CLASSIFIER_LABEL_COUNT \<Longrightarrow>
   fuse ws bs buf ! c = weighted_sum ws buf ! c * bs ! c"
  using fold_update_nth [of c "weighted_sum ws buf" "\<lambda>c x. x * bs ! c" EI_CLASSIFIER_LABEL_COUNT]
  by (simp add: fuse_def apply_boost_def length_weighted_sum)

lemma push_index: "fusion_index s < FUSION_WINDOW \<Longrightarrow>
  fusion_index (push s v) = (fusion_index s + 1) mod FUSION_WINDOW"
proof (cases "fusion_index s + 1 = FUSION_WINDOW")
  case True
  then show ?thesis by (simp add: push_def Let_def)
next
  case False
  assume "fusion_index s < FUSION_WINDOW"
  with False have "fusion_index s + 1 < FUSION_WINDOW" by simp
  then show ?thesis by (simp add: push_def Let_def)
qed

lemma push_full: "fusion_index s < FUSION_WINDOW \<Longrightarrow>
  fusion_buffer_full (push s v) = (fusion_buffer_full s \<or> fusion_index s + 1 = FUSION_WINDOW)"
  by (auto simp add: push_def Let_def)

lemma push_allocated: "inference_buffer_allocated (push s v) = inference_buffer_allocated s"
  by (simp add: push_def Let_def)

lemma push_buffer:
  "wf_state s \<Longrightarrow> length v = EI_CLASSIFIER_LABEL_COUNT \<Longrightarrow>
   classification_buffer (push s v) = (classification_buffer s)[fusion_index s := v]"
  by (simp add: push_def Let_def wf_state_def store_row_eq)

lemma wf_push:
  "wf_state s \<Longrightarrow> length v = EI_CLASSIFIER_LABEL_COUNT \<Longrightarrow> wf_state (push s v)"
  unfolding wf_state_def
  by (auto simp add: push_buffer wf_state_def push_index dest!: set_update_subset_insert [THEN subsetD])

lemma wf_setup: "wf_state (sketch_setup m)"
  by (simp add: wf_state_def sketch_setup_def FUSION_WINDOW_def)

text \<open>
  On one and the same list of rows the sketch's fusion and the specification's formula
  agree: they can differ only in the order of the rows they are given.
\<close>

lemma fuse_eq_fuse_spec: "fuse ws bs buf = fuse_spec ws bs buf"
proof (rule nth_equalityI)
  show "length (fuse ws bs buf) = length (fuse_spec ws bs buf)"
    by (simp add: length_fuse fuse_spec_def)
next
  fix c assume "c < length (fuse ws bs buf)"
  then have c: "c < EI_CLASSIFIER_LABEL_COUNT" by (simp add: length_fuse)
  have "(\<Sum>i\<leftarrow>[0..<FUSION_WINDOW]. ws ! i * buf ! i ! c) = (\<Sum>i<FUSION_WINDOW. ws ! i * buf ! i ! c)"
    by (simp add: interv_sum_list_conv_sum_set_nat atLeast0LessThan)
  then show "fuse ws bs buf ! c = fuse_spec ws bs buf ! c"
    using c by (simp add: fuse_nth weighted_sum_nth fuse_spec_def)
qed

subsection \<open>One cycle and runs of cycles\<close>

lemma FUSION_WINDOW_pos: "0 < FUSION_WINDOW"
  by (simp add: FUSION_WINDOW_def)

lemma loop_Classified:
  "loop s (Classified v) =
     (push s v,
      if fusion_buffer_full (push s v)
      then Some (fuse fusion_weights class_boost (classification_buffer (push s v)) ! 1
                   > KNOCK_THRESHOLD,
                 fuse fusion_weights class_boost (classification_buffer (push s v)))
      else None)"
  by (simp add: loop_def Let_def)

lemma run_Cons:
  "run s (inp # inps) =
     (fst (run (fst (loop s inp)) inps),
      snd (loop s inp) # snd (run (fst (loop s inp)) inps))"
  by (simp split: prod.splits)

declare run.simps(2) [simp del]

lemma run_snoc:
  "run s (inps @ [inp]) =
     (fst (loop (fst (run s inps)) inp),
      snd (run s inps) @ [snd (loop (fst (run s inps)) inp)])"
  by (induction inps arbitrary: s) (simp_all add: run_Cons)

lemma length_run: "length (snd (run s inps)) = length inps"
  by (induction inps arbitrary: s) (simp_all add: run_Cons)

lemma run_nth:
  "k < length inps \<Longrightarrow>
   snd (run s inps) ! k = snd (loop (fst (run s (take k inps))) (inps ! k))"
proof (induction inps arbitrary: s k)
  case Nil
  then show ?case by simp
next
  case (Cons inp inps)
  show ?case
  proof (cases k)
    case 0
    then show ?thesis by (simp add: run_Cons)
  next
    case (Suc j)
    with Cons.prems have "j < length inps" by simp
    from Cons.IH [OF this] Suc show ?thesis
      by (simp add: run_Cons)
  qed
qed

lemma run_pushes_cursor:
  "fusion_index (fst (run (sketch_setup m) (map Classified vs))) = length vs mod FUSION_WINDOW \<and>
   fusion_buffer_full (fst (run (sketch_setup m) (map Classified vs))) = (FUSION_WINDOW \<le> length vs)"
proof (induction vs rule: rev_induct)
  case Nil
  then show ?case by (simp add: sketch_setup_def FUSION_WINDOW_def)
next
  case (snoc v vs)
  let ?s = "fst (run (sketch_setup m) (map Classified vs))"
  have lt: "fusion_index ?s < FUSION_WINDOW"
    using snoc FUSION_WINDOW_pos by simp
  have idx: "fusion_index (push ?s v) = Suc (length vs) mod FUSION_WINDOW"
    using push_index [OF lt, of v] snoc by (simp add: mod_Suc_eq)
  have "(FUSION_WINDOW \<le> length vs \<or> length vs mod FUSION_WINDOW + 1 = FUSION_WINDOW)
          = (FUSION_WINDOW \<le> Suc (length vs))"
  proof (cases "length vs < FUSION_WINDOW")
    case True
    then show ?thesis by auto
  next
    case False
    then show ?thesis by simp
  qed
  then have full: "fusion_buffer_full (push ?s v) = (FUSION_WINDOW \<le> Suc (length vs))"
    using push_full [OF lt, of v] snoc by simp
  show ?case
    using idx full by (simp add: run_snoc loop_Classified)
qed

lemma wf_run_pushes:
  "wf_state s \<Longrightarrow> \<forall>v\<in>set vs. length v = EI_CLASSIFIER_LABEL_COUNT \<Longrightarrow>
   wf_state (fst (run s (map Classified vs)))"
  by (induction vs arbitrary: s) (simp_all add: run_Cons loop_Classified wf_push)

lemma run_pushes_buffer:
  assumes "length vs \<le> FUSION_WINDOW" and "\<forall>v\<in>set vs. length v = EI_CLASSIFIER_LABEL_COUNT"
  shows "classification_buffer (fst (run (sketch_setup m) (map Classified vs)))
           = vs @ replicate (FUSION_WINDOW - length vs) (replicate EI_CLASSIFIER_LABEL_COUNT 0)"
  using assms
proof (induction vs rule: rev_induct)
  case Nil
  then show ?case by (simp add: sketch_setup_def)
next
  case (snoc v vs)
  let ?s = "fst (run (sketch_setup m) (map Classified vs))"
  let ?z = "replicate EI_CLASSIFIER_LABEL_COUNT (0::real)"
  from snoc.prems have n: "length vs < FUSION_WINDOW" and lv: "length v = EI_CLASSIFIER_LABEL_COUNT"
    and vs: "\<forall>v\<in>set vs. length v = EI_CLASSIFIER_LABEL_COUNT" by simp_all
  have wf: "wf_state ?s" using wf_run_pushes [OF wf_setup vs] .
  have idx: "fusion_index ?s = length vs" using run_pushes_cursor [of m vs] n by simp
  have buf: "classification_buffer ?s = vs @ replicate (FUSION_WINDOW - length vs) ?z"
    using snoc.IH n vs by simp
  obtain k where k: "FUSION_WINDOW - length vs = Suc k" using n by (cases "FUSION_WINDOW - length vs") simp_all
  then have k': "FUSION_WINDOW - Suc (length vs) = k" by simp
  have "classification_buffer (push ?s v) = (vs @ replicate (Suc k) ?z)[length vs := v]"
    using push_buffer [OF wf lv] idx buf k by simp
  also have "\<dots> = (vs @ [v]) @ replicate k ?z"
    by (simp add: list_update_append)
  finally show ?case using k' by (simp add: run_snoc loop_Classified)
qed

lemma wf_loop:
  "wf_state s \<Longrightarrow> (\<And>v. inp = Classified v \<Longrightarrow> length v = EI_CLASSIFIER_LABEL_COUNT) \<Longrightarrow>
   wf_state (fst (loop s inp))"
  by (cases inp)
     (simp_all add: loop_Classified wf_push, simp_all add: loop_def microphone_inference_end_def wf_state_def)

lemma run_window_pushes:
  assumes "length vs = FUSION_WINDOW" and "\<forall>v\<in>set vs. length v = EI_CLASSIFIER_LABEL_COUNT"
  shows "classification_buffer (fst (run (sketch_setup m) (map Classified vs))) = vs"
    and "fusion_index (fst (run (sketch_setup m) (map Classified vs))) = 0"
    and "wf_state (fst (run (sketch_setup m) (map Classified vs)))"
  using assms run_pushes_buffer [of vs m] run_pushes_cursor [of m vs]
    wf_run_pushes [OF wf_setup, of vs m]
  by simp_all

subsection \<open>The configured weights and boosts\<close>

lemma fusion_weights_nonneg: "i < FUSION_WINDOW \<Longrightarrow> 0 \<le> fusion_weights ! i"
  by (simp add: FUSION_WINDOW_def fusion_weights_def nth_Cons' )

lemma fusion_weights_sum: "(\<Sum>i<FUSION_WINDOW. fusion_weights ! i) = 1"
  by (simp add: FUSION_WINDOW_def fusion_weights_def eval_nat_numeral)

lemma weighted_sum_unit:
  assumes "scores_in_unit buf" and "c < EI_CLASSIFIER_LABEL_COUNT"
  shows "0 \<le> weighted_sum fusion_weights buf ! c" and "weighted_sum fusion_weights buf ! c \<le> 1"
proof -
  have x: "0 \<le> buf ! i ! c \<and> buf ! i ! c \<le> 1" if "i < FUSION_WINDOW" for i
    using assms that by (simp add: scores_in_unit_def)
  have "0 \<le> (\<Sum>i<FUSION_WINDOW. fusion_weights ! i * buf ! i ! c)"
    by (rule sum_nonneg) (simp add: fusion_weights_nonneg x)
  then show "0 \<le> weighted_sum fusion_weights buf ! c"
    using assms(2) by (simp add: weighted_sum_nth)
  have "(\<Sum>i<FUSION_WINDOW. fusion_weights ! i * buf ! i ! c)
          \<le> (\<Sum>i<FUSION_WINDOW. fusion_weights ! i)"
    by (rule sum_mono) (simp add: fusion_weights_nonneg x mult_left_le)
  then show "weighted_sum fusion_weights buf ! c \<le> 1"
    using assms(2) by (simp add: weighted_sum_nth fusion_weights_sum)
qed

lemma class_boost_nonneg: "c < EI_CLASSIFIER_LABEL_COUNT \<Longrightarrow> 0 \<le> class_boost ! c"
  by (simp add: EI_CLASSIFIER_LABEL_COUNT_def class_boost_def nth_Cons')

subsection \<open>Failed cycles and the exact boost\<close>

lemma failed_cycle_keeps_history:
  "loop s RecordTimeout = (s, None)
   \<and> snd (loop s ClassifierError) = None
   \<and> history_of (fst (loop s ClassifierError)) = history_of s"
  by (simp add: loop_def history_of_def microphone_inference_end_def)

lemma boost_monotone_exact:
  assumes "c < EI_CLASSIFIER_LABEL_COUNT" and "length bs = EI_CLASSIFIER_LABEL_COUNT"
      and "bs ! c < b'" and "0 < weighted_sum ws buf ! c"
  shows "fuse ws bs buf ! c < fuse ws (bs[c := b']) buf ! c"
    and "c' < EI_CLASSIFIER_LABEL_COUNT \<Longrightarrow> c' \<noteq> c \<Longrightarrow>
         fuse ws (bs[c := b']) buf ! c' = fuse ws bs buf ! c'"
  using assms by (simp_all add: fuse_nth)

subsection \<open>Rounding to single precision\<close>

lemma rne_of_int [simp]: "rne (of_int n) = n"
  by (simp add: rne_def)

lemma rne_mono: "x \<le> y \<Longrightarrow> rne x \<le> rne y"
proof -
  assume xy: "x \<le> y"
  have fl: "\<lfloor>x\<rfloor> \<le> \<lfloor>y\<rfloor>" using xy by (rule floor_mono)
  have lo: "\<lfloor>t\<rfloor> \<le> rne t" and hi: "rne t \<le> \<lfloor>t\<rfloor> + 1" for t
    by (simp_all add: rne_def Let_def)
  show ?thesis
  proof (cases "\<lfloor>x\<rfloor> = \<lfloor>y\<rfloor>")
    case True
    then show ?thesis using xy by (auto simp add: rne_def Let_def)
  next
    case False
    with fl have "\<lfloor>x\<rfloor> + 1 \<le> \<lfloor>y\<rfloor>" by simp
    with hi [of x] lo [of y] show ?thesis by linarith
  qed
qed

lemma rne_near: "\<bar>x - of_int n\<bar> < 1 / 2 \<Longrightarrow> rne x = n"
proof -
  assume a: "\<bar>x - of_int n\<bar> < 1 / 2"
  show ?thesis
  proof (cases "of_int n \<le> x")
    case True
    with a have "\<lfloor>x\<rfloor> = n" by (intro floor_unique) linarith+
    with a True show ?thesis by (simp add: rne_def Let_def)
  next
    case False
    with a have "of_int (n - 1) \<le> x" and "x < of_int (n - 1) + 1" by simp_all
    then have f: "\<lfloor>x\<rfloor> = n - 1" by (rule floor_unique)
    with a False show ?thesis by (auto simp add: rne_def Let_def)
  qed
qed

lemma f32_ulp_pos: "0 < f32_ulp m"
  by (simp add: f32_ulp_def)

lemma f32_ulp_mono: "m \<le> m' \<Longrightarrow> f32_ulp m \<le> f32_ulp m'"
proof -
  assume "m \<le> m'"
  then have "nat \<lfloor>m * 2 ^ 149\<rfloor> \<le> nat \<lfloor>m' * 2 ^ 149\<rfloor>"
    by (intro nat_mono floor_mono) simp
  then have "floorlog 2 (nat \<lfloor>m * 2 ^ 149\<rfloor>) \<le> floorlog 2 (nat \<lfloor>m' * 2 ^ 149\<rfloor>)"
    by (rule floorlog_mono)
  then have "min 253 (floorlog 2 (nat \<lfloor>m * 2 ^ 149\<rfloor>) - 24)
           \<le> min 253 (floorlog 2 (nat \<lfloor>m' * 2 ^ 149\<rfloor>) - 24)"
    by simp
  then have "(2::real) ^ min 253 (floorlog 2 (nat \<lfloor>m * 2 ^ 149\<rfloor>) - 24)
           \<le> 2 ^ min 253 (floorlog 2 (nat \<lfloor>m' * 2 ^ 149\<rfloor>) - 24)"
    by (intro power_increasing) simp_all
  then show ?thesis by (simp add: f32_ulp_def divide_right_mono)
qed

text \<open>The ulp is determined by the binade.\<close>

lemma f32_ulp_eqI:
  assumes "0 \<le> m" and "k \<le> 253"
      and "k = 0 \<or> 2 ^ (k + 23) \<le> m * 2 ^ 149"
      and "m * 2 ^ 149 < 2 ^ (k + 24) \<or> k = 253"
  shows "f32_ulp m = 2 ^ k / 2 ^ 149"
proof -
  let ?n = "nat \<lfloor>m * 2 ^ 149\<rfloor>"
  have n0: "0 \<le> m * 2 ^ 149" using assms(1) by simp
  have up: "floorlog 2 ?n \<le> k + 24" if "m * 2 ^ 149 < 2 ^ (k + 24)"
  proof -
    have "\<lfloor>m * 2 ^ 149\<rfloor> < 2 ^ (k + 24)"
      using that by (simp add: floor_less_iff)
    then have "?n < 2 ^ (k + 24)"
      using n0 by (simp add: nat_less_iff)
    then show ?thesis by (simp add: floorlog_le_iff)
  qed
  have lo: "k + 24 \<le> floorlog 2 ?n" if "2 ^ (k + 23) \<le> m * 2 ^ 149"
  proof -
    have "(2::int) ^ (k + 23) \<le> \<lfloor>m * 2 ^ 149\<rfloor>"
      using that by (simp add: le_floor_iff)
    then have "(2::nat) ^ (k + 23) \<le> ?n"
      by (simp add: le_nat_iff)
    then have "Suc (k + 23) \<le> floorlog 2 ?n"
      by (intro floorlog_ge_SucI) simp_all
    then show ?thesis by simp
  qed
  have "min 253 (floorlog 2 ?n - 24) = k"
    using assms(2,3,4) up lo by (auto simp add: min_def)
  then show ?thesis by (simp add: f32_ulp_def)
qed

lemma f32_ulp_le_top: "f32_ulp m \<le> 2 ^ 253 / 2 ^ 149"
proof -
  have "(2::real) ^ min 253 (floorlog 2 (nat \<lfloor>m * 2 ^ 149\<rfloor>) - 24) \<le> 2 ^ 253"
    by (intro power_increasing) simp_all
  then show ?thesis unfolding f32_ulp_def by (intro divide_right_mono) simp_all
qed

lemma f32_ulp_ge_bottom: "1 / 2 ^ 149 \<le> f32_ulp m"
proof -
  have "(1::real) \<le> 2 ^ min 253 (floorlog 2 (nat \<lfloor>m * 2 ^ 149\<rfloor>) - 24)"
    by simp
  then show ?thesis unfolding f32_ulp_def by (intro divide_right_mono) simp_all
qed

lemma f32_ulp_upper:
  assumes "0 \<le> m" and "f32_ulp m < 2 ^ 253 / 2 ^ 149"
  shows "m < f32_ulp m * 2 ^ 24"
proof -
  let ?n = "nat \<lfloor>m * 2 ^ 149\<rfloor>"
  define k where "k = min 253 (floorlog 2 ?n - 24)"
  have u: "f32_ulp m = 2 ^ k / 2 ^ 149" by (simp add: f32_ulp_def k_def)
  from assms(2) have "(2::real) ^ k < 2 ^ 253" by (simp add: u divide_less_cancel)
  then have "k < 253"
    using power_increasing [of 253 k "2::real"] by (cases "k < 253") simp_all
  then have "floorlog 2 ?n \<le> k + 24" by (simp add: k_def min_def split: if_splits)
  then have "?n < 2 ^ (k + 24)" by (simp add: floorlog_le_iff)
  then have "\<lfloor>m * 2 ^ 149\<rfloor> < 2 ^ (k + 24)" by (simp add: nat_less_iff)
  then have "m * 2 ^ 149 < 2 ^ (k + 24)" by (simp add: floor_less_iff)
  then have "m < 2 ^ (k + 24) / 2 ^ 149" by (simp add: pos_less_divide_eq)
  then show ?thesis by (simp add: u power_add)
qed

lemma f32_ulp_lower:
  assumes "0 \<le> m" and "1 / 2 ^ 149 < f32_ulp m"
  shows "f32_ulp m * 2 ^ 23 \<le> m"
proof -
  let ?n = "nat \<lfloor>m * 2 ^ 149\<rfloor>"
  define k where "k = min 253 (floorlog 2 ?n - 24)"
  have u: "f32_ulp m = 2 ^ k / 2 ^ 149" by (simp add: f32_ulp_def k_def)
  from assms(2) have "(1::real) < 2 ^ k" by (simp add: u divide_less_cancel)
  then have "0 < k" by (cases k) simp_all
  then have "k + 24 \<le> floorlog 2 ?n" by (simp add: k_def min_def split: if_splits)
  then have "(2::nat) ^ (k + 24 - 1) \<le> ?n" by (intro floorlog_geD) simp_all
  moreover have "k + 24 - 1 = k + 23" by simp
  ultimately have "(2::nat) ^ (k + 23) \<le> ?n" by (simp only:)
  then have "(2::real) ^ (k + 23) \<le> real ?n"
    by (metis of_nat_le_iff of_nat_numeral of_nat_power)
  also have "real ?n = of_int \<lfloor>m * 2 ^ 149\<rfloor>" using assms(1) by simp
  also have "\<dots> \<le> m * 2 ^ 149" by (rule of_int_floor_le)
  finally have "2 ^ (k + 23) \<le> m * 2 ^ 149" .
  then have "2 ^ (k + 23) / 2 ^ 149 \<le> m" by (simp add: pos_divide_le_eq)
  then show ?thesis by (simp add: u power_add)
qed

lemma f32_ulp_double:
  assumes "f32_ulp m < f32_ulp m'"
  shows "2 * f32_ulp m \<le> f32_ulp m'"
proof -
  define k where "k = min 253 (floorlog 2 (nat \<lfloor>m * 2 ^ 149\<rfloor>) - 24)"
  define k' where "k' = min 253 (floorlog 2 (nat \<lfloor>m' * 2 ^ 149\<rfloor>) - 24)"
  have u: "f32_ulp m = 2 ^ k / 2 ^ 149" "f32_ulp m' = 2 ^ k' / 2 ^ 149"
    by (simp_all add: f32_ulp_def k_def k'_def)
  from assms have "(2::real) ^ k < 2 ^ k'" by (simp add: u divide_less_cancel)
  then have "Suc k \<le> k'" by simp
  then have "(2::real) ^ Suc k \<le> 2 ^ k'" by (intro power_increasing) simp_all
  then show ?thesis by (simp add: u divide_right_mono)
qed

lemma f32_round_mag_nonneg: "0 \<le> m \<Longrightarrow> 0 \<le> f32_round_mag m"
proof -
  assume "0 \<le> m"
  then have "0 \<le> m / f32_ulp m" using f32_ulp_pos [of m] by simp
  then have "rne 0 \<le> rne (m / f32_ulp m)" by (rule rne_mono)
  then have "0 \<le> rne (m / f32_ulp m)" using rne_of_int [of 0] by simp
  then show ?thesis using f32_ulp_pos [of m] by (simp add: f32_round_mag_def)
qed

lemma f32_round_mag_mono:
  assumes "0 \<le> x" and "x \<le> y"
  shows "f32_round_mag x \<le> f32_round_mag y"
proof (cases "f32_ulp x = f32_ulp y")
  case True
  have "x / f32_ulp y \<le> y / f32_ulp y"
    using assms(2) f32_ulp_pos [of y] by (simp add: divide_right_mono)
  then have "rne (x / f32_ulp y) \<le> rne (y / f32_ulp y)" by (rule rne_mono)
  then have "real_of_int (rne (x / f32_ulp y)) * f32_ulp y \<le> real_of_int (rne (y / f32_ulp y)) * f32_ulp y"
    using f32_ulp_pos [of y] by (simp add: mult_right_mono)
  then show ?thesis by (simp add: f32_round_mag_def True)
next
  case False
  with f32_ulp_mono [OF assms(2)] have lt: "f32_ulp x < f32_ulp y" by simp
  have y0: "0 \<le> y" using assms by simp
  have "f32_ulp x < 2 ^ 253 / 2 ^ 149" using lt f32_ulp_le_top [of y] by simp
  from f32_ulp_upper [OF assms(1) this] have "x / f32_ulp x \<le> of_int (2 ^ 24)"
    using f32_ulp_pos [of x] by (simp add: pos_divide_le_eq mult.commute)
  then have "rne (x / f32_ulp x) \<le> rne (of_int (2 ^ 24))" by (rule rne_mono)
  then have "rne (x / f32_ulp x) \<le> 2 ^ 24" by (simp only: rne_of_int)
  then have "real_of_int (rne (x / f32_ulp x)) \<le> 2 ^ 24" by (simp add: of_int_le_iff [symmetric] del: of_int_le_iff)
  then have a: "f32_round_mag x \<le> 2 ^ 24 * f32_ulp x"
    using f32_ulp_pos [of x] by (simp add: f32_round_mag_def mult_right_mono)
  have "1 / 2 ^ 149 < f32_ulp y" using lt f32_ulp_ge_bottom [of x] by simp
  from f32_ulp_lower [OF y0 this] have "of_int (2 ^ 23) \<le> y / f32_ulp y"
    using f32_ulp_pos [of y] by (simp add: pos_le_divide_eq mult.commute)
  then have "rne (of_int (2 ^ 23)) \<le> rne (y / f32_ulp y)" by (rule rne_mono)
  then have "2 ^ 23 \<le> rne (y / f32_ulp y)" by (simp only: rne_of_int)
  then have "2 ^ 23 \<le> real_of_int (rne (y / f32_ulp y))" by (simp add: of_int_le_iff [symmetric] del: of_int_le_iff)
  then have b: "2 ^ 23 * f32_ulp y \<le> f32_round_mag y"
    using f32_ulp_pos [of y] by (simp add: f32_round_mag_def mult_right_mono)
  have "2 ^ 24 * f32_ulp x \<le> 2 ^ 23 * f32_ulp y"
    using f32_ulp_double [OF lt] by simp
  with a b show ?thesis by linarith
qed

lemma round_f32_mono:
  assumes "x \<le> y" and "round_f32 x = Some a" and "round_f32 y = Some b"
  shows "a \<le> b"
proof -
  from assms(2) have a: "a = (if x < 0 then - f32_round_mag \<bar>x\<bar> else f32_round_mag \<bar>x\<bar>)"
    by (auto simp add: round_f32_def Let_def split: if_splits)
  from assms(3) have b: "b = (if y < 0 then - f32_round_mag \<bar>y\<bar> else f32_round_mag \<bar>y\<bar>)"
    by (auto simp add: round_f32_def Let_def split: if_splits)
  consider "0 \<le> x" | "x < 0" "0 \<le> y" | "y < 0" using assms(1) by linarith
  then show ?thesis
  proof cases
    case 1
    then show ?thesis using assms(1) a b f32_round_mag_mono [of x y] by simp
  next
    case 2
    then show ?thesis
      using a b f32_round_mag_nonneg [of "\<bar>x\<bar>"] f32_round_mag_nonneg [of "\<bar>y\<bar>"] by simp
  next
    case 3
    then show ?thesis using assms(1) a b f32_round_mag_mono [of "- y" "- x"] by simp
  qed
qed

lemma fmul_mono:
  assumes "0 \<le> s" and "b \<le> b'" and "fmul s b = Some r" and "fmul s b' = Some r'"
  shows "r \<le> r'"
  using assms round_f32_mono [of "s * b" "s * b'" r r']
  by (simp add: fmul_def mult_left_mono)

subsection \<open>The loops in single precision\<close>

lemma fold_opt_None:
  "fold (\<lambda>c So. do { S \<leftarrow> So; t \<leftarrow> g c S; Some (S[c := t]) }) cs None = None"
  by (induction cs) simp_all

lemma fold_opt_update:
  "fold (\<lambda>c So. do { S \<leftarrow> So; t \<leftarrow> g c S; Some (S[c := t]) }) [0..<n] So = Some S \<Longrightarrow>
   \<exists>S0. So = Some S0 \<and> length S = length S0"
proof (induction n arbitrary: S)
  case 0
  then show ?case by simp
next
  case (Suc n)
  then show ?case
    by (auto simp add: bind_eq_Some_conv)
qed

lemma fold_opt_update_nth:
  "fold (\<lambda>c So. do { S \<leftarrow> So; t \<leftarrow> h c (S ! c); Some (S[c := t]) }) [0..<n] (Some S0) = Some S \<Longrightarrow>
   c < length S0 \<Longrightarrow>
   (if c < n then h c (S0 ! c) = Some (S ! c) else S ! c = S0 ! c)"
proof (induction n arbitrary: S)
  case 0
  then show ?case by simp
next
  case (Suc n)
  let ?f = "\<lambda>c So. do { S \<leftarrow> So; t \<leftarrow> h c (S ! c); Some (S[c := t]) }"
  from Suc.prems(1) obtain S1 t where
    S1: "fold ?f [0..<n] (Some S0) = Some S1" and t: "h n (S1 ! n) = Some t"
    and S: "S = S1[n := t]"
    by (auto simp add: bind_eq_Some_conv)
  from fold_opt_update [of "\<lambda>c S. h c (S ! c)" n "Some S0" S1] S1
  have len: "length S1 = length S0" by simp
  note IH = Suc.IH [OF S1 Suc.prems(2)]
  show ?case
  proof (cases "c = n")
    case True
    with IH have "S1 ! n = S0 ! n" by simp
    with t S True Suc.prems(2) len show ?thesis by simp
  next
    case False
    with IH S show ?thesis by (auto split: if_splits)
  qed
qed

lemma length_weighted_sum_f32:
  "weighted_sum_f32 ws buf = Some P \<Longrightarrow> length P = EI_CLASSIFIER_LABEL_COUNT"
proof -
  let ?row = "\<lambda>i. fold (\<lambda>c So. do {
                         S \<leftarrow> So;
                         p \<leftarrow> fmul (ws ! i) (buf ! i ! c);
                         t \<leftarrow> fadd (S ! c) p;
                         Some (S[c := t]) })
                      [0..<EI_CLASSIFIER_LABEL_COUNT]"
  have row: "?row i So = Some S \<Longrightarrow> \<exists>S0. So = Some S0 \<and> length S = length S0" for i So S
    using fold_opt_update
      [of "\<lambda>c S. fmul (ws ! i) (buf ! i ! c) \<bind> (\<lambda>p. fadd (S ! c) p)"
          EI_CLASSIFIER_LABEL_COUNT So S]
    by simp
  have "fold ?row [0..<n] (Some S0) = Some S \<Longrightarrow> length S = length S0" for n S0 S
  proof (induction n arbitrary: S)
    case 0
    then show ?case by simp
  next
    case (Suc n)
    from Suc.prems have "?row n (fold ?row [0..<n] (Some S0)) = Some S" by simp
    from row [OF this] obtain S1 where "fold ?row [0..<n] (Some S0) = Some S1"
      and "length S = length S1" by blast
    with Suc.IH show ?case by simp
  qed
  from this [of FUSION_WINDOW "replicate EI_CLASSIFIER_LABEL_COUNT 0" P]
  show "weighted_sum_f32 ws buf = Some P \<Longrightarrow> length P = EI_CLASSIFIER_LABEL_COUNT"
    by (simp add: weighted_sum_f32_def)
qed

lemma apply_boost_f32_nth:
  "apply_boost_f32 bs P = Some S \<Longrightarrow> length P = EI_CLASSIFIER_LABEL_COUNT \<Longrightarrow>
   c < EI_CLASSIFIER_LABEL_COUNT \<Longrightarrow> fmul (P ! c) (bs ! c) = Some (S ! c)"
  using fold_opt_update_nth [of "\<lambda>c x. fmul x (bs ! c)" EI_CLASSIFIER_LABEL_COUNT P S c]
  by (simp add: apply_boost_f32_def)

subsection \<open>Evaluating roundings\<close>

lemma upt_window: "[0..<FUSION_WINDOW] = [0, 1, 2, 3, 4]"
  by (simp add: FUSION_WINDOW_def upt_rec)

lemma upt_labels: "[0..<EI_CLASSIFIER_LABEL_COUNT] = [0, 1, 2]"
  by (simp add: EI_CLASSIFIER_LABEL_COUNT_def upt_rec)

lemma round_f32_eqI:
  assumes "0 \<le> x" and "k \<le> 253"
      and "k = 0 \<or> 2 ^ (k + 23) \<le> x * 2 ^ 149"
      and "x * 2 ^ 149 < 2 ^ (k + 24) \<or> k = 253"
      and "\<bar>x * 2 ^ 149 / 2 ^ k - of_int n\<bar> < 1 / 2"
      and "of_int n * 2 ^ k / 2 ^ 149 < (2::real) ^ 128"
  shows "round_f32 x = Some (of_int n * 2 ^ k / 2 ^ 149)"
proof -
  have u: "f32_ulp \<bar>x\<bar> = 2 ^ k / 2 ^ 149"
    using assms(1-4) by (intro f32_ulp_eqI) simp_all
  have "\<bar>x\<bar> / (2 ^ k / 2 ^ 149) = x * 2 ^ 149 / 2 ^ k"
    using assms(1) by simp
  then have "rne (\<bar>x\<bar> / (2 ^ k / 2 ^ 149)) = n"
    using assms(5) by (simp only: rne_near)
  then have "f32_round_mag \<bar>x\<bar> = of_int n * 2 ^ k / 2 ^ 149"
    by (simp add: f32_round_mag_def u)
  then show ?thesis
    using assms(1,6) by (simp add: round_f32_def)
qed

lemma round_f32_zero: "round_f32 0 = Some 0"
  using round_f32_eqI [of 0 0 0] by simp

lemma fmul_zero_right: "fmul a 0 = Some 0"
  by (simp add: fmul_def round_f32_zero)

lemma fmul_zero_left: "fmul 0 a = Some 0"
  by (simp add: fmul_def round_f32_zero)

lemma fadd_zero_zero: "fadd 0 0 = Some 0"
  by (simp add: fadd_def round_f32_zero)

lemma fusion_weights_f32_rounded: "map round_f32 fusion_weights = map Some fusion_weights_f32"
  using round_f32_eqI [of "0.05" 121 13421773] round_f32_eqI [of "0.10" 122 13421773]
    round_f32_eqI [of "0.20" 123 13421773] round_f32_eqI [of "0.30" 124 10066330]
    round_f32_eqI [of "0.35" 124 11744051]
  by (simp add: fusion_weights_def fusion_weights_f32_def)

lemma round_f32_ex_product: "round_f32 (11744051 / 33554432 * (31 / 32)) = Some (11377049 / 33554432)"
  using round_f32_eqI [of "11744051 / 33554432 * (31 / 32)" 124 11377049] by simp

lemma round_f32_ex_sum: "round_f32 (11377049 / 33554432) = Some (11377049 / 33554432)"
  using round_f32_eqI [of "11377049 / 33554432" 124 11377049] by simp

lemma round_f32_ex_boost_a: "round_f32 (11377049 / 33554432 * (3 / 2)) = Some (8532787 / 16777216)"
  using round_f32_eqI [of "11377049 / 33554432 * (3 / 2)" 125 8532787] by simp

lemma round_f32_ex_boost_b: "round_f32 (11377049 / 33554432 * (12582913 / 8388608)) = Some (8532787 / 16777216)"
  using round_f32_eqI [of "11377049 / 33554432 * (12582913 / 8388608)" 125 8532787] by simp

lemma round_f32_ex_boost_2: "round_f32 (11377049 / 33554432 * 2) = Some (11377049 / 16777216)"
  using round_f32_eqI [of "11377049 / 33554432 * 2" 125 11377049] by simp

lemma round_f32_ex_inputs: "round_f32 (31 / 32) = Some (31 / 32)" "round_f32 (3 / 2) = Some (3 / 2)"
  "round_f32 (12582913 / 8388608) = Some (12582913 / 8388608)"
  using round_f32_eqI [of "31 / 32" 125 16252928] round_f32_eqI [of "3 / 2" 126 12582912]
    round_f32_eqI [of "12582913 / 8388608" 126 12582913]
  by simp_all

lemma zero_scores: "replicate EI_CLASSIFIER_LABEL_COUNT (0::real) = [0, 0, 0]"
  by (simp add: EI_CLASSIFIER_LABEL_COUNT_def numeral_3_eq_3)

lemma fmul_ex_product: "fmul (11744051 / 33554432) (31 / 32) = Some (11377049 / 33554432)"
  using round_f32_ex_product by (simp add: fmul_def)

lemma fadd_ex_sum: "fadd 0 (11377049 / 33554432) = Some (11377049 / 33554432)"
  using round_f32_ex_sum by (simp add: fadd_def)

lemma fmul_ex_boost_a: "fmul (11377049 / 33554432) (3 / 2) = Some (8532787 / 16777216)"
  using round_f32_ex_boost_a by (simp add: fmul_def)

lemma fmul_ex_boost_b: "fmul (11377049 / 33554432) (12582913 / 8388608) = Some (8532787 / 16777216)"
  using round_f32_ex_boost_b by (simp add: fmul_def)

lemma fmul_ex_boost_2: "fmul (11377049 / 33554432) 2 = Some (11377049 / 16777216)"
  using round_f32_ex_boost_2 by (simp add: fmul_def)

lemma weighted_sum_f32_ex:
  "weighted_sum_f32 fusion_weights_f32
     [[0, 0, 0], [0, 0, 0], [0, 0, 0], [0, 0, 0], [0, 31 / 32, 0]]
   = Some [0, 11377049 / 33554432, 0]"
  by (simp add: weighted_sum_f32_def fusion_weights_f32_def upt_window upt_labels zero_scores
      fmul_zero_right fadd_zero_zero fmul_ex_product fadd_ex_sum)

lemma fuse_f32_ex_a:
  "fuse_f32 fusion_weights_f32 [1, 3 / 2, 1]
     [[0, 0, 0], [0, 0, 0], [0, 0, 0], [0, 0, 0], [0, 31 / 32, 0]]
   = Some [0, 8532787 / 16777216, 0]"
  by (simp add: fuse_f32_def weighted_sum_f32_ex apply_boost_f32_def upt_labels fmul_zero_left fmul_ex_boost_a)

lemma fuse_f32_ex_b:
  "fuse_f32 fusion_weights_f32 [1, 12582913 / 8388608, 1]
     [[0, 0, 0], [0, 0, 0], [0, 0, 0], [0, 0, 0], [0, 31 / 32, 0]]
   = Some [0, 8532787 / 16777216, 0]"
  by (simp add: fuse_f32_def weighted_sum_f32_ex apply_boost_f32_def upt_labels fmul_zero_left fmul_ex_boost_b)

lemma fuse_f32_ex_2:
  "fuse_f32 fusion_weights_f32 [1, 2, 1]
     [[0, 0, 0], [0, 0, 0], [0, 0, 0], [0, 0, 0], [0, 31 / 32, 0]]
   = Some [0, 11377049 / 16777216, 0]"
  by (simp add: fuse_f32_def weighted_sum_f32_ex apply_boost_f32_def upt_labels fmul_zero_left fmul_ex_boost_2)

lemma round_f32_ex_boost_3: "round_f32 (11377049 / 33554432 * 3) = Some (8532787 / 8388608)"
  using round_f32_eqI [of "11377049 / 33554432 * 3" 126 8532787] by simp

lemma fmul_ex_boost_3: "fmul (11377049 / 33554432) 3 = Some (8532787 / 8388608)"
  using round_f32_ex_boost_3 by (simp add: fmul_def)

lemma fuse_f32_ex_3:
  "fuse_f32 fusion_weights_f32 [1, 3, 1]
     [[0, 0, 0], [0, 0, 0], [0, 0, 0], [0, 0, 0], [0, 31 / 32, 0]]
   = Some [0, 8532787 / 8388608, 0]"
  by (simp add: fuse_f32_def weighted_sum_f32_ex apply_boost_f32_def upt_labels fmul_zero_left
      fmul_ex_boost_3)

section \<open>Properties of the fusion\<close>

subsection \<open>Order in which the fusion reads the ring\<close>

text \<open>
  Claim C1. The specification asks that the fused score after any number \<open>N \<ge> W\<close> of
  pushes weighs the pushed vectors by recency: \<open>weights[i]\<close> multiplies the vector that
  is \<open>W - 1 - i\<close> pushes older than the most recent one. The sketch multiplies
  \<^verbatim>\<open>fusion_weights[i]\<close> with the physical slot \<^verbatim>\<open>classification_buffer[i]\<close> and never
  consults \<^verbatim>\<open>fusion_index\<close>, so the two agree only when the number of pushes is a
  multiple of the window. After five windows of zero scores and one window with knock
  score 1, the sixth push lands in slot 0 and meets the smallest weight: the sketch
  reports the fused knock score \<open>0.1\<close> and no knock, where the specification's fusion
  of the chronological snapshot of the same six pushes gives \<open>0.7\<close>, above the threshold.
\<close>

theorem ring_order_divergence:
  "run (sketch_setup True)
       (map Classified [[0, 0, 0], [0, 0, 0], [0, 0, 0], [0, 0, 0], [0, 0, 0], [0, 1, 0]])
     = (\<lparr> classification_buffer = [[0, 1, 0], [0, 0, 0], [0, 0, 0], [0, 0, 0], [0, 0, 0]],
          fusion_index = 1, fusion_buffer_full = True, inference_buffer_allocated = True \<rparr>,
        [None, None, None, None, Some (False, [0, 0, 0]), Some (False, [0, 0.1, 0])])
   \<and> snapshot_spec [[0, 0, 0], [0, 0, 0], [0, 0, 0], [0, 0, 0], [0, 0, 0], [0, 1, 0 :: real]]
     = [[0, 0, 0], [0, 0, 0], [0, 0, 0], [0, 0, 0], [0, 1, 0]]
   \<and> fuse_spec fusion_weights class_boost
        (snapshot_spec [[0, 0, 0], [0, 0, 0], [0, 0, 0], [0, 0, 0], [0, 0, 0], [0, 1, 0]])
     = [0, 0.7, 0]
   \<and> (0.7 :: real) > KNOCK_THRESHOLD"
  by code_simp

subsection \<open>Warm-up\<close>

text \<open>
  Claim C2. Starting from the state after setup, after \<open>N\<close> pushes the full flag is
  set exactly when \<open>N \<ge> W\<close> (so it is clear during warm-up and stays set afterwards);
  the cycle of the \<open>k+1\<close>-th push reports nothing while \<open>k + 1 < W\<close>, and from the
  \<open>W\<close>-th push on every cycle reports the decision and the scores fused from the whole
  buffer as it is after that push.
\<close>

theorem warmup_gating:
  "fusion_buffer_full (fst (run (sketch_setup m) (map Classified vs)))
     = (FUSION_WINDOW \<le> length vs)
   \<and> length (snd (run (sketch_setup m) (map Classified vs))) = length vs
   \<and> (\<forall>k<length vs.
        snd (run (sketch_setup m) (map Classified vs)) ! k
          = (if Suc k < FUSION_WINDOW then None
             else Some (fuse fusion_weights class_boost
                          (classification_buffer
                             (fst (run (sketch_setup m) (map Classified (take (Suc k) vs))))) ! 1
                          > KNOCK_THRESHOLD,
                        fuse fusion_weights class_boost
                          (classification_buffer
                             (fst (run (sketch_setup m) (map Classified (take (Suc k) vs))))))))"
proof (intro conjI allI impI)
  show "fusion_buffer_full (fst (run (sketch_setup m) (map Classified vs)))
     = (FUSION_WINDOW \<le> length vs)"
    using run_pushes_cursor [of m vs] by simp
next
  show "length (snd (run (sketch_setup m) (map Classified vs))) = length vs"
    by (simp add: length_run)
next
  fix k assume k: "k < length vs"
  let ?s = "fst (run (sketch_setup m) (map Classified (take k vs)))"
  have tk: "take (Suc k) vs = take k vs @ [vs ! k]"
    using k by (simp add: take_Suc_conv_app_nth)
  have st: "fst (run (sketch_setup m) (map Classified (take (Suc k) vs))) = push ?s (vs ! k)"
    unfolding tk by (simp add: run_snoc loop_Classified)
  have "fusion_buffer_full (push ?s (vs ! k)) = (FUSION_WINDOW \<le> length (take (Suc k) vs))"
    using run_pushes_cursor [of m "take (Suc k) vs"] st by simp
  then have full: "fusion_buffer_full (push ?s (vs ! k)) = (\<not> Suc k < FUSION_WINDOW)"
    using k by auto
  have "snd (run (sketch_setup m) (map Classified vs)) ! k = snd (loop ?s (Classified (vs ! k)))"
    using k run_nth [of k "map Classified vs" "sketch_setup m"] by (simp add: take_map)
  then show "snd (run (sketch_setup m) (map Classified vs)) ! k
          = (if Suc k < FUSION_WINDOW then None
             else Some (fuse fusion_weights class_boost
                          (classification_buffer
                             (fst (run (sketch_setup m) (map Classified (take (Suc k) vs))))) ! 1
                          > KNOCK_THRESHOLD,
                        fuse fusion_weights class_boost
                          (classification_buffer
                             (fst (run (sketch_setup m) (map Classified (take (Suc k) vs)))))))"
    using full by (simp add: st loop_Classified)
qed

theorem warmup_gating_witness:
  "(2::nat) < length [[0, 0, 0], [0, 0, 0], [0, 0, 0], [0, 0, 0], [0, 0, 0], [0, 1, 0 :: real]]
   \<and> snd (run (sketch_setup True)
            (map Classified [[0, 0, 0], [0, 0, 0], [0, 0, 0], [0, 0, 0], [0, 0, 0], [0, 1, 0]])) ! 2
       = None
   \<and> (5::nat) < length [[0, 0, 0], [0, 0, 0], [0, 0, 0], [0, 0, 0], [0, 0, 0], [0, 1, 0 :: real]]
   \<and> snd (run (sketch_setup True)
            (map Classified [[0, 0, 0], [0, 0, 0], [0, 0, 0], [0, 0, 0], [0, 0, 0], [0, 1, 0]])) ! 5
       \<noteq> None
   \<and> fusion_buffer_full
        (fst (run (sketch_setup True)
            (map Classified [[0, 0, 0], [0, 0, 0], [0, 0, 0], [0, 0, 0], [0, 0, 0], [0, 1, 0]])))"
proof -
  let ?vs = "[[0, 0, 0], [0, 0, 0], [0, 0, 0], [0, 0, 0], [0, 0, 0], [0, 1, 0 :: real]]"
  note w = warmup_gating [of True ?vs]
  from w have full: "fusion_buffer_full (fst (run (sketch_setup True) (map Classified ?vs)))"
    by (simp add: FUSION_WINDOW_def)
  from w have outs: "\<forall>k<length ?vs.
        snd (run (sketch_setup True) (map Classified ?vs)) ! k
          = (if Suc k < FUSION_WINDOW then None
             else Some (fuse fusion_weights class_boost
                          (classification_buffer
                             (fst (run (sketch_setup True) (map Classified (take (Suc k) ?vs))))) ! 1
                          > KNOCK_THRESHOLD,
                        fuse fusion_weights class_boost
                          (classification_buffer
                             (fst (run (sketch_setup True) (map Classified (take (Suc k) ?vs)))))))"
    by blast
  have two: "(2::nat) < length ?vs" and five: "(5::nat) < length ?vs" by simp_all
  from outs two have a: "snd (run (sketch_setup True) (map Classified ?vs)) ! 2 = None"
    by (simp add: FUSION_WINDOW_def)
  from outs five have b: "snd (run (sketch_setup True) (map Classified ?vs)) ! 5 \<noteq> None"
    by (simp add: FUSION_WINDOW_def)
  from two a five b full show ?thesis by blast
qed

subsection \<open>The decision\<close>

text \<open>
  Claim C3. Whenever a cycle reports, the decision is \<^verbatim>\<open>KNOCK DETECTED!\<close> exactly when
  the fused score of the target class (index 1 in the sketch) is strictly greater than
  the threshold \<^verbatim>\<open>KNOCK_THRESHOLD\<close>; a fused score equal to the threshold is not a
  knock.
\<close>

theorem knock_decision_strict:
  assumes "loop s (Classified v) = (s', Some (knock, S))"
  shows "knock = (S ! 1 > KNOCK_THRESHOLD) \<and> (S ! 1 = KNOCK_THRESHOLD \<longrightarrow> \<not> knock)"
  using assms by (auto simp add: loop_Classified split: if_splits)

theorem knock_decision_strict_witness:
  "loop (fst (run (sketch_setup True) (map Classified (replicate 4 [0, 0.125, 0]))))
        (Classified [0, 0.125, 0])
     = (fst (run (sketch_setup True) (map Classified (replicate 5 [0, 0.125, 0]))),
        Some (False, [0, 0.25, 0]))
   \<and> [0, 0.25, 0 :: real] ! 1 = KNOCK_THRESHOLD
   \<and> \<not> ([0, 0.25, 0] ! 1 > KNOCK_THRESHOLD)"
proof -
  have h: "loop (fst (run (sketch_setup True) (map Classified (replicate 4 [0, 0.125, 0]))))
        (Classified [0, 0.125, 0])
     = (fst (run (sketch_setup True) (map Classified (replicate 5 [0, 0.125, 0]))),
        Some (False, [0, 0.25, 0]))"
    by code_simp
  show ?thesis using h knock_decision_strict [OF h] by (simp add: KNOCK_THRESHOLD_def)
qed

subsection \<open>Scenario A\<close>


subsection \<open>Overwriting the oldest vector\<close>

text \<open>
  Claim C5. After \<open>W + 1\<close> pushes from the state after setup, the slot that the first
  push wrote holds the vector of the last push, and the other slots hold the pushes
  \<open>2 .. W\<close>: the buffer is made of the later \<open>W\<close> pushes alone and does not depend on
  the first vector, which is in no slot (unless a later push delivered an equal
  vector).
\<close>

theorem first_push_overwritten:
  assumes "length vs = FUSION_WINDOW"
      and "\<forall>v\<in>set (v1 # vs). length v = EI_CLASSIFIER_LABEL_COUNT"
  shows "classification_buffer (fst (run (sketch_setup m) (map Classified (v1 # vs))))
           = last vs # butlast vs
         \<and> (v1 \<notin> set vs \<longrightarrow>
              v1 \<notin> set (classification_buffer
                           (fst (run (sketch_setup m) (map Classified (v1 # vs))))))"
proof -
  from assms(1) FUSION_WINDOW_pos have ne: "vs \<noteq> []" by auto
  let ?ws = "v1 # butlast vs"
  let ?s = "fst (run (sketch_setup m) (map Classified ?ws))"
  have split: "v1 # vs = ?ws @ [last vs]" using ne by simp
  have m: "map Classified (v1 # vs) = map Classified ?ws @ [Classified (last vs)]"
    by (subst split) simp
  have len: "length ?ws = FUSION_WINDOW" using assms(1) FUSION_WINDOW_pos by simp
  have shape: "\<forall>v\<in>set ?ws. length v = EI_CLASSIFIER_LABEL_COUNT"
    using assms(2) by (auto dest: in_set_butlastD)
  have lastv: "length (last vs) = EI_CLASSIFIER_LABEL_COUNT"
    using assms(2) ne by simp
  note w = run_window_pushes [OF len shape, of m]
  have "classification_buffer (fst (run (sketch_setup m) (map Classified (v1 # vs))))
          = classification_buffer (push ?s (last vs))"
    unfolding m run_snoc by (simp add: loop_Classified)
  also have "\<dots> = ?ws[0 := last vs]"
    using push_buffer [OF w(3) lastv] w(1,2) by simp
  also have "\<dots> = last vs # butlast vs" by simp
  finally have buf: "classification_buffer (fst (run (sketch_setup m) (map Classified (v1 # vs))))
           = last vs # butlast vs" .
  have "set (last vs # butlast vs) = set vs"
    using ne by (metis append_butlast_last_id list.simps(15) rotate1.simps(2) set_rotate1)
  with buf show ?thesis by simp
qed

theorem first_push_overwritten_witness:
  "length [[0, 0, 1], [0, 1, 0], [1, 0, 0], [0.5, 0.5, 0], [0, 0.5, 0.5 :: real]] = FUSION_WINDOW
   \<and> length [0.2, 0.3, 0.5 :: real] = EI_CLASSIFIER_LABEL_COUNT
   \<and> [0.2, 0.3, 0.5] \<notin> set [[0, 0, 1], [0, 1, 0], [1, 0, 0], [0.5, 0.5, 0], [0, 0.5, 0.5 :: real]]
   \<and> classification_buffer
        (fst (run (sketch_setup True)
           (map Classified
              ([0.2, 0.3, 0.5] # [[0, 0, 1], [0, 1, 0], [1, 0, 0], [0.5, 0.5, 0], [0, 0.5, 0.5]]))))
       = [[0, 0.5, 0.5], [0, 0, 1], [0, 1, 0], [1, 0, 0], [0.5, 0.5, 0]]
   \<and> [0.2, 0.3, 0.5] \<notin> set (classification_buffer
        (fst (run (sketch_setup True)
           (map Classified
              ([0.2, 0.3, 0.5] # [[0, 0, 1], [0, 1, 0], [1, 0, 0], [0.5, 0.5, 0], [0, 0.5, 0.5]])))))"
proof -
  let ?vs = "[[0, 0, 1], [0, 1, 0], [1, 0, 0], [0.5, 0.5, 0], [0, 0.5, 0.5 :: real]]"
  let ?v1 = "[0.2, 0.3, 0.5 :: real]"
  have h1: "length ?vs = FUSION_WINDOW" by (simp add: FUSION_WINDOW_def)
  have h2: "\<forall>v\<in>set (?v1 # ?vs). length v = EI_CLASSIFIER_LABEL_COUNT"
    by (simp add: EI_CLASSIFIER_LABEL_COUNT_def)
  have h3: "?v1 \<notin> set ?vs" by simp
  show ?thesis
    using h1 h2 h3 first_push_overwritten [OF h1 h2, of True] by simp
qed

subsection \<open>Boost monotonicity\<close>

text \<open>
  Claim C6. The specification asks that a strictly greater \<open>boosts[c]\<close> strictly
  increases the fused score of a class \<open>c\<close> whose weighted sum before the boost is
  positive. In exact arithmetic it does (lemma \<open>boost_monotone_exact\<close>), but line 186
  multiplies in single precision, where the products with two different boosts can
  round to the same value. What holds of the sketch, for every buffer, weights and
  boosts: when the weighted sum of class \<open>c\<close> before the boost is positive and neither
  fusion overflows, replacing \<open>boosts[c]\<close> by a strictly greater factor does not decrease
  the fused score of \<open>c\<close>, and leaves the fused score of every other class unchanged.
\<close>

theorem boost_monotone_f32:
  assumes "c < EI_CLASSIFIER_LABEL_COUNT" and "length bs = EI_CLASSIFIER_LABEL_COUNT"
      and "bs ! c < b'"
      and "weighted_sum_f32 ws buf = Some P" and "0 < P ! c"
      and "fuse_f32 ws bs buf = Some S" and "fuse_f32 ws (bs[c := b']) buf = Some S'"
  shows "S ! c \<le> S' ! c
         \<and> (\<forall>c'<EI_CLASSIFIER_LABEL_COUNT. c' \<noteq> c \<longrightarrow> S' ! c' = S ! c')"
proof -
  note len = length_weighted_sum_f32 [OF assms(4)]
  from assms(4,6) have S: "apply_boost_f32 bs P = Some S" by (simp add: fuse_f32_def)
  from assms(4,7) have S': "apply_boost_f32 (bs[c := b']) P = Some S'" by (simp add: fuse_f32_def)
  have a: "fmul (P ! c) (bs ! c) = Some (S ! c)"
    using apply_boost_f32_nth [OF S len assms(1)] .
  have b: "fmul (P ! c) b' = Some (S' ! c)"
    using apply_boost_f32_nth [OF S' len assms(1)] assms(1,2) by simp
  have "S ! c \<le> S' ! c"
    using fmul_mono [OF _ _ a b] assms(3,5) by simp
  moreover have "S' ! c' = S ! c'" if "c' < EI_CLASSIFIER_LABEL_COUNT" "c' \<noteq> c" for c'
    using apply_boost_f32_nth [OF S len that(1)] apply_boost_f32_nth [OF S' len that(1)] that(2)
    by simp
  ultimately show ?thesis by blast
qed

theorem boost_monotone_f32_witness:
  "(1::nat) < EI_CLASSIFIER_LABEL_COUNT
   \<and> length [1, 2, 1 :: real] = EI_CLASSIFIER_LABEL_COUNT
   \<and> [1, 2, 1] ! 1 < (3::real)
   \<and> weighted_sum_f32 fusion_weights_f32
        [[0, 0, 0], [0, 0, 0], [0, 0, 0], [0, 0, 0], [0, 31 / 32, 0]]
       = Some [0, 11377049 / 33554432, 0]
   \<and> (0::real) < [0, 11377049 / 33554432, 0] ! 1
   \<and> fuse_f32 fusion_weights_f32 [1, 2, 1]
        [[0, 0, 0], [0, 0, 0], [0, 0, 0], [0, 0, 0], [0, 31 / 32, 0]]
       = Some [0, 11377049 / 16777216, 0]
   \<and> fuse_f32 fusion_weights_f32 ([1, 2, 1][1 := 3])
        [[0, 0, 0], [0, 0, 0], [0, 0, 0], [0, 0, 0], [0, 31 / 32, 0]]
       = Some [0, 8532787 / 8388608, 0]
   \<and> [0, 11377049 / 16777216, 0] ! 1 \<le> [0, 8532787 / 8388608, 0 :: real] ! 1
   \<and> [0, 8532787 / 8388608, 0] ! 0 = [0, 11377049 / 16777216, 0 :: real] ! 0"
proof -
  let ?buf = "[[0, 0, 0], [0, 0, 0], [0, 0, 0], [0, 0, 0], [0, 31 / 32, 0 :: real]]"
  have h1: "(1::nat) < EI_CLASSIFIER_LABEL_COUNT" by (simp add: EI_CLASSIFIER_LABEL_COUNT_def)
  have h2: "length [1, 2, 1 :: real] = EI_CLASSIFIER_LABEL_COUNT"
    by (simp add: EI_CLASSIFIER_LABEL_COUNT_def)
  have h3: "[1, 2, 1] ! 1 < (3::real)" by simp
  note h4 = weighted_sum_f32_ex
  have h5: "(0::real) < [0, 11377049 / 33554432, 0] ! 1" by simp
  note h6 = fuse_f32_ex_2
  have h7: "fuse_f32 fusion_weights_f32 ([1, 2, 1][1 := 3]) ?buf = Some [0, 8532787 / 8388608, 0]"
    using fuse_f32_ex_3 by simp
  note b = boost_monotone_f32 [OF h1 h2 h3 h4 h5 h6 h7]
  from b have le: "[0, 11377049 / 16777216, 0] ! 1 \<le> [0, 8532787 / 8388608, 0 :: real] ! 1"
    by blast
  from b have "\<forall>c'<EI_CLASSIFIER_LABEL_COUNT. c' \<noteq> 1 \<longrightarrow>
      [0, 8532787 / 8388608, 0] ! c' = [0, 11377049 / 16777216, 0 :: real] ! c'"
    by blast
  from this [rule_format, of 0]
  have other: "[0, 8532787 / 8388608, 0] ! 0 = [0, 11377049 / 16777216, 0 :: real] ! 0"
    by (simp add: EI_CLASSIFIER_LABEL_COUNT_def)
  from h1 h2 h3 h4 h5 h6 h7 le other show ?thesis by blast
qed

text \<open>
  The strict increase fails in single precision. The buffer holds four windows of zero
  scores and one window with knock score \<open>31/32\<close>; the weights are the sketch's; the
  boost of the knock class is raised from \<open>3/2\<close> to the next binary32 value,
  \<open>3/2 + 2 ^ -23\<close>. All inputs are binary32 values, the weighted sum of the knock class is
  positive, and both fusions give the knock score \<open>8532787 / 2 ^ 24\<close>. (All products but
  one are zero and the one sum adds zero, so a fused multiply-add would give the same.)
\<close>

theorem boost_strict_increase_counterexample:
  "round_f32 (31 / 32) = Some (31 / 32)
   \<and> round_f32 (3 / 2) = Some (3 / 2)
   \<and> round_f32 (12582913 / 8388608) = Some (12582913 / 8388608)
   \<and> map round_f32 fusion_weights = map Some fusion_weights_f32
   \<and> weighted_sum_f32 fusion_weights_f32
        [[0, 0, 0], [0, 0, 0], [0, 0, 0], [0, 0, 0], [0, 31 / 32, 0]]
       = Some [0, 11377049 / 33554432, 0]
   \<and> (0::real) < [0, 11377049 / 33554432, 0] ! 1
   \<and> [1, 3 / 2, 1] ! 1 < (12582913 / 8388608 :: real)
   \<and> fuse_f32 fusion_weights_f32 [1, 3 / 2, 1]
        [[0, 0, 0], [0, 0, 0], [0, 0, 0], [0, 0, 0], [0, 31 / 32, 0]]
       = Some [0, 8532787 / 16777216, 0]
   \<and> fuse_f32 fusion_weights_f32 ([1, 3 / 2, 1][1 := 12582913 / 8388608])
        [[0, 0, 0], [0, 0, 0], [0, 0, 0], [0, 0, 0], [0, 31 / 32, 0]]
       = Some [0, 8532787 / 16777216, 0]
   \<and> \<not> the (fuse_f32 fusion_weights_f32 [1, 3 / 2, 1]
               [[0, 0, 0], [0, 0, 0], [0, 0, 0], [0, 0, 0], [0, 31 / 32, 0]]) ! 1
         < the (fuse_f32 fusion_weights_f32 ([1, 3 / 2, 1][1 := 12582913 / 8388608])
               [[0, 0, 0], [0, 0, 0], [0, 0, 0], [0, 0, 0], [0, 31 / 32, 0]]) ! 1"
  using round_f32_ex_inputs fusion_weights_f32_rounded weighted_sum_f32_ex
    fuse_f32_ex_a fuse_f32_ex_b
  by simp

subsection \<open>Cycles without a classification\<close>

text \<open>
  Claim C7. A cycle whose recording times out, or whose classifier fails, pushes
  nothing and reports nothing, and stored vectors, cursor and full flag are the same
  after it as before it (lemma \<open>failed_cycle_keeps_history\<close>). The specification adds
  that the next cycle proceeds independently. After a time-out it does. After a
  classifier failure it does not: line 160 frees the sample buffer, nothing but
  \<^verbatim>\<open>setup()\<close> allocates it, and the next cycle stores its samples through the freed
  pointer (line 77). From the state after a successful setup: the failed cycle leaves the
  history as it was and reports nothing, but it leaves the sample buffer freed, so the
  cycle after it is undefined, where the same cycle after a time-out is the cycle from
  the state before.
\<close>

theorem classifier_failure_frees_sample_buffer:
  "loop_checked (sketch_setup True) ClassifierError
     = Some (\<lparr> classification_buffer = [[0, 0, 0], [0, 0, 0], [0, 0, 0], [0, 0, 0], [0, 0, 0]],
               fusion_index = 0, fusion_buffer_full = False,
               inference_buffer_allocated = False \<rparr>, None)
   \<and> history_of (fst (loop (sketch_setup True) ClassifierError)) = history_of (sketch_setup True)
   \<and> loop_checked (fst (loop (sketch_setup True) ClassifierError)) (Classified [0, 1, 0]) = None
   \<and> loop_checked (fst (loop (sketch_setup True) RecordTimeout)) (Classified [0, 1, 0])
       = Some (loop (sketch_setup True) (Classified [0, 1, 0]))"
  by (simp add: loop_checked_def loop_def sketch_setup_def microphone_inference_end_def
      history_of_def FUSION_WINDOW_def EI_CLASSIFIER_LABEL_COUNT_def eval_nat_numeral)

subsection \<open>Frame of a push\<close>

text \<open>
  Claim C9. A push of a vector of the right length into a well-shaped state writes the
  slot at the cursor and nothing else in the buffer, advances the cursor modulo the
  window, sets the full flag when the cursor wraps, and changes no other part of the
  state.
\<close>

theorem push_frame:
  assumes "wf_state s" and "length v = EI_CLASSIFIER_LABEL_COUNT"
  shows "push s v = s\<lparr> classification_buffer := (classification_buffer s)[fusion_index s := v],
                        fusion_index := (fusion_index s + 1) mod FUSION_WINDOW,
                        fusion_buffer_full :=
                          (fusion_buffer_full s \<or> fusion_index s + 1 = FUSION_WINDOW) \<rparr>
         \<and> classification_buffer (push s v) ! fusion_index s = v
         \<and> (\<forall>i<FUSION_WINDOW. i \<noteq> fusion_index s \<longrightarrow>
               classification_buffer (push s v) ! i = classification_buffer s ! i)"
proof -
  from assms(1) have lt: "fusion_index s < FUSION_WINDOW"
    and len: "length (classification_buffer s) = FUSION_WINDOW"
    by (simp_all add: wf_state_def)
  have eq: "push s v = s\<lparr> classification_buffer := (classification_buffer s)[fusion_index s := v],
                        fusion_index := (fusion_index s + 1) mod FUSION_WINDOW,
                        fusion_buffer_full :=
                          (fusion_buffer_full s \<or> fusion_index s + 1 = FUSION_WINDOW) \<rparr>"
    using push_buffer [OF assms] push_index [OF lt, of v] push_full [OF lt, of v]
      push_allocated [of s v]
    by (intro sketch_state.equality) simp_all
  show ?thesis
    using lt len by (simp add: eq)
qed

theorem push_frame_witness:
  "wf_state \<lparr> classification_buffer = [[1, 0, 0], [0, 1, 0], [0, 0, 1], [0.5, 0.5, 0], [0, 0, 0]],
              fusion_index = 4, fusion_buffer_full = False, inference_buffer_allocated = True \<rparr>
   \<and> length [0.1, 0.2, 0.7 :: real] = EI_CLASSIFIER_LABEL_COUNT
   \<and> push \<lparr> classification_buffer = [[1, 0, 0], [0, 1, 0], [0, 0, 1], [0.5, 0.5, 0], [0, 0, 0]],
             fusion_index = 4, fusion_buffer_full = False, inference_buffer_allocated = True \<rparr>
           [0.1, 0.2, 0.7]
       = \<lparr> classification_buffer = [[1, 0, 0], [0, 1, 0], [0, 0, 1], [0.5, 0.5, 0], [0.1, 0.2, 0.7]],
           fusion_index = 0, fusion_buffer_full = True, inference_buffer_allocated = True \<rparr>
   \<and> classification_buffer
        (push \<lparr> classification_buffer = [[1, 0, 0], [0, 1, 0], [0, 0, 1], [0.5, 0.5, 0], [0, 0, 0]],
                fusion_index = 4, fusion_buffer_full = False, inference_buffer_allocated = True \<rparr>
              [0.1, 0.2, 0.7]) ! 3
       = [0.5, 0.5, 0]"
proof -
  let ?s = "\<lparr> classification_buffer = [[1, 0, 0], [0, 1, 0], [0, 0, 1], [0.5, 0.5, 0], [0, 0, 0 :: real]],
              fusion_index = 4, fusion_buffer_full = False, inference_buffer_allocated = True \<rparr>"
  let ?v = "[0.1, 0.2, 0.7 :: real]"
  have h1: "wf_state ?s"
    by (simp add: wf_state_def FUSION_WINDOW_def EI_CLASSIFIER_LABEL_COUNT_def)
  have h2: "length ?v = EI_CLASSIFIER_LABEL_COUNT"
    by (simp add: EI_CLASSIFIER_LABEL_COUNT_def)
  note f = push_frame [OF h1 h2]
  from f have eq: "push ?s ?v
       = \<lparr> classification_buffer = [[1, 0, 0], [0, 1, 0], [0, 0, 1], [0.5, 0.5, 0], [0.1, 0.2, 0.7]],
           fusion_index = 0, fusion_buffer_full = True, inference_buffer_allocated = True \<rparr>"
    by (simp add: FUSION_WINDOW_def)
  from f have "\<forall>i<FUSION_WINDOW. i \<noteq> fusion_index ?s \<longrightarrow>
               classification_buffer (push ?s ?v) ! i = classification_buffer ?s ! i"
    by blast
  then have "classification_buffer (push ?s ?v) ! 3 = classification_buffer ?s ! 3"
    by (simp add: FUSION_WINDOW_def)
  then have three: "classification_buffer (push ?s ?v) ! 3 = [0.5, 0.5, 0]"
    by simp
  from h1 h2 eq three show ?thesis by blast
qed

subsection \<open>Range of the fused scores\<close>

text \<open>
  Claim C10. When a cycle reports and every stored score lies between 0 and 1, every
  fused score lies between 0 and the boost of its class; with the sketch's boosts the
  fused scores of classes 0 and 2 are at most 1 and the fused score of class 1 is at
  most 2. (Exact arithmetic; the weights sum to 1.)
\<close>

theorem fused_score_bounds:
  assumes "loop s (Classified v) = (s', Some (knock, S))"
      and "scores_in_unit (classification_buffer s')"
  shows "(\<forall>c<EI_CLASSIFIER_LABEL_COUNT. 0 \<le> S ! c \<and> S ! c \<le> class_boost ! c)
         \<and> S ! 0 \<le> 1 \<and> S ! 1 \<le> 2 \<and> S ! 2 \<le> 1"
proof -
  from assms(1) have S: "S = fuse fusion_weights class_boost (classification_buffer s')"
    by (auto simp add: loop_Classified split: if_splits)
  have b: "0 \<le> S ! c \<and> S ! c \<le> class_boost ! c" if c: "c < EI_CLASSIFIER_LABEL_COUNT" for c
  proof -
    note w = weighted_sum_unit [OF assms(2) c]
    have "S ! c = weighted_sum fusion_weights (classification_buffer s') ! c * class_boost ! c"
      using c by (simp add: S fuse_nth)
    then show ?thesis
      using w class_boost_nonneg [OF c] by (simp add: mult_left_le_one_le mult_right_le_one_le)
  qed
  have "S ! 0 \<le> class_boost ! 0" "S ! 1 \<le> class_boost ! 1" "S ! 2 \<le> class_boost ! 2"
    using b by (simp_all add: EI_CLASSIFIER_LABEL_COUNT_def)
  then have "S ! 0 \<le> 1 \<and> S ! 1 \<le> 2 \<and> S ! 2 \<le> 1"
    by (simp add: class_boost_def)
  with b show ?thesis by blast
qed

theorem fused_score_bounds_witness:
  "loop \<lparr> classification_buffer = [[1, 1, 1], [1, 1, 1], [1, 1, 1], [1, 1, 1], [0, 0, 0]],
          fusion_index = 4, fusion_buffer_full = False, inference_buffer_allocated = True \<rparr>
        (Classified [1, 1, 1])
     = (\<lparr> classification_buffer = [[1, 1, 1], [1, 1, 1], [1, 1, 1], [1, 1, 1], [1, 1, 1]],
          fusion_index = 0, fusion_buffer_full = True, inference_buffer_allocated = True \<rparr>,
        Some (True, [1, 2, 1]))
   \<and> scores_in_unit [[1, 1, 1], [1, 1, 1], [1, 1, 1], [1, 1, 1], [1, 1, 1]]
   \<and> [1, 2, 1 :: real] ! 1 \<le> class_boost ! 1
   \<and> [1, 2, 1 :: real] ! 0 \<le> 1 \<and> [1, 2, 1 :: real] ! 1 \<le> 2 \<and> [1, 2, 1 :: real] ! 2 \<le> 1"
proof -
  let ?s = "\<lparr> classification_buffer = [[1, 1, 1], [1, 1, 1], [1, 1, 1], [1, 1, 1], [0, 0, 0 :: real]],
          fusion_index = 4, fusion_buffer_full = False, inference_buffer_allocated = True \<rparr>"
  let ?s' = "\<lparr> classification_buffer = [[1, 1, 1], [1, 1, 1], [1, 1, 1], [1, 1, 1], [1, 1, 1 :: real]],
          fusion_index = 0, fusion_buffer_full = True, inference_buffer_allocated = True \<rparr>"
  have h1: "loop ?s (Classified [1, 1, 1]) = (?s', Some (True, [1, 2, 1]))"
    by code_simp
  have u: "scores_in_unit [[1, 1, 1], [1, 1, 1], [1, 1, 1], [1, 1, 1], [1, 1, 1]]"
    by (simp add: scores_in_unit_def FUSION_WINDOW_def EI_CLASSIFIER_LABEL_COUNT_def
        eval_nat_numeral All_less_Suc)
  then have h2: "scores_in_unit (classification_buffer ?s')" by simp
  note b = fused_score_bounds [OF h1 h2]
  from b have "\<forall>c<EI_CLASSIFIER_LABEL_COUNT. 0 \<le> [1, 2, 1 :: real] ! c \<and> [1, 2, 1 :: real] ! c \<le> class_boost ! c"
    by blast
  from this [rule_format, of 1] have one: "[1, 2, 1 :: real] ! 1 \<le> class_boost ! 1"
    by (simp add: EI_CLASSIFIER_LABEL_COUNT_def)
  from h1 u one b show ?thesis by blast
qed

end
